theory Spec2Isabelle
  imports Main
begin

section \<open>runner.py: exceptions, outcomes of external calls, observable events\<close>

text \<open>
  The script drives a browser through Playwright. Every call that leaves the script
  (the file system, Playwright, the standard streams, the clock) is answered by an
  environment; the model is the script's own control flow over those answers.

  Python separates \<open>Exception\<close> (caught by \<open>except Exception\<close>) from the other
  \<open>BaseException\<close>s, of which the script names \<open>KeyboardInterrupt\<close> (line 115).
  An \<open>Exception\<close> carries the text that \<open>str(e)\<close> yields.
\<close>

datatype exn = Exception string | KeyboardInterrupt

fun is_Exception :: "exn \<Rightarrow> bool" where
  "is_Exception (Exception m) = True"
| "is_Exception KeyboardInterrupt = False"

fun str :: "exn \<Rightarrow> string" where
  "str (Exception m) = m"
| "str KeyboardInterrupt = []"

datatype 'a outcome = Returns 'a | Raises exn

subsection \<open>Parent watchdog (lines 14-24)\<close>

text \<open>
  \<open>sys.stdin.read()\<close> blocks until end of stream and then returns what was read.
  \<open>os._exit\<close> ends the process at once, without unwinding; a watchdog thread that
  ends with an exception that is not an \<open>Exception\<close> leaves the process running.
\<close>

datatype watchdog_end = OsExit int | ThreadDied exn

definition parent_watchdog :: "string outcome \<Rightarrow> watchdog_end" where
  "parent_watchdog stdin_read =
     (case stdin_read of
        Returns data \<Rightarrow> OsExit 0
      | Raises e \<Rightarrow> if is_Exception e then OsExit 1 else ThreadDied e)"

section \<open>The main flow: \<open>run_scan\<close> (lines 26-128)\<close>

text \<open>
  The main thread's flow, on its own. The watchdog runs beside it and can end the process
  at any point of a run, which then stops at a prefix of the trace given here:
  \<open>run_process\<close>, further down, puts the two threads together. The values
  of \<open>sys.argv\<close> arrive as the four strings of a \<open>request\<close>.
\<close>

subsection \<open>Handles, events, environment\<close>

text \<open>
  Playwright objects are handles; the identifier stands for the object's identity, the
  other fields for the attributes the script reads (\<open>browser.contexts\<close>,
  \<open>context.pages\<close>, \<open>page.url\<close>).
\<close>

record Page =
  page_id :: nat
  url :: string

record BrowserContext =
  pages :: "Page list"

record Browser =
  browser_id :: nat
  contexts :: "BrowserContext list"

text \<open>
  What a run does to the outside, in order. \<open>Stderr\<close> is a line printed with
  \<open>file=sys.stderr\<close>; \<open>Stdout\<close> is text that reached \<open>sys.stdout\<close>, whether the
  \<open>print\<close> that wrote it returned or raised on the way; the other events are calls
  issued, recorded whether or not the call then raises.
\<close>

datatype event =
    Stderr string
  | Stdout string
  | StdoutFlush
  | ThreadStart
  | OpenRead string
  | PlaywrightStart
  | PlaywrightStop
  | ConnectOverCdp string
  | Launch bool "string list"
  | NewPage Browser
  | Goto Page string
  | WaitForLoadState Page string nat
  | Evaluate Page string
  | IsConnected Browser
  | Sleep nat
  | Close Browser

text \<open>
  \<open>print(text)\<close> on \<open>sys.stdout\<close> writes the text and then the newline. It returns
  with all of it written, or it raises when only the first \<open>k\<close> characters of the text
  have been written (none, some, or all of them).
\<close>

datatype printed = Printed | Interrupted nat exn

text \<open>
  The environment answers each external call. \<open>'v\<close> is the type of the values
  \<open>page.evaluate\<close> hands back; the script only takes their \<open>len\<close> and passes them to
  \<open>json.dumps(_, indent=2)\<close>, both of which belong to Python and are answered here.
  \<open>evaluate\<close>, \<open>is_connected\<close> and \<open>time_sleep\<close> are called several times in a run
  and take the number of the call.
\<close>

record 'v env =
  open_read :: "string \<Rightarrow> string outcome"
  sync_playwright :: "unit outcome"
  connect_over_cdp :: "string \<Rightarrow> Browser outcome"
  launch :: "bool \<Rightarrow> string list \<Rightarrow> Browser outcome"
  new_page :: "Browser \<Rightarrow> Page outcome"
  goto :: "Page \<Rightarrow> string \<Rightarrow> unit outcome"
  wait_for_load_state :: "Page \<Rightarrow> unit outcome"
  evaluate :: "nat \<Rightarrow> Page \<Rightarrow> string \<Rightarrow> 'v outcome"
  len_result :: "'v \<Rightarrow> nat outcome"
  json_dumps :: "'v \<Rightarrow> string outcome"
  print_stdout :: "string \<Rightarrow> printed"
  stdout_flush :: "unit outcome"
  is_connected :: "Browser \<Rightarrow> nat \<Rightarrow> bool outcome"
  time_sleep :: "nat \<Rightarrow> unit outcome"
  browser_close :: "Browser \<Rightarrow> unit outcome"

record request =
  js_file_path :: string
  target_url :: string
  headless_mode :: string
  keep_open :: string

record session =
  browser :: Browser
  page :: Page
  is_existing_browser :: bool

subsection \<open>Python's value formatting\<close>

text \<open>
  \<open>str.lower()\<close> on the ASCII letters, which is all that a comparison with
  \<open>'true'\<close> can depend on.
\<close>

definition lower_char :: "char \<Rightarrow> char" where
  "lower_char c =
     (case map_of (zip ''ABCDEFGHIJKLMNOPQRSTUVWXYZ'' ''abcdefghijklmnopqrstuvwxyz'') c of
        Some l \<Rightarrow> l
      | None \<Rightarrow> c)"

definition lower :: "string \<Rightarrow> string" where
  "lower s = map lower_char s"

text \<open>The decimal text of a non-negative integer, as an f-string formats it.\<close>

definition digit_char :: "nat \<Rightarrow> char" where
  "digit_char d = ''0123456789'' ! d"

fun show_nat :: "nat \<Rightarrow> string" where
  "show_nat n = (if n < 10 then [digit_char n]
                 else show_nat (n div 10) @ [digit_char (n mod 10)])"

declare show_nat.simps [simp del]

definition str_bool :: "bool \<Rightarrow> string" where
  "str_bool b = (if b then ''True'' else ''False'')"

definition DEBUG_PORT :: nat where
  "DEBUG_PORT = 9222"

definition cdp_url :: string where
  "cdp_url = ''http://localhost:'' @ show_nat DEBUG_PORT"

definition scan_call :: string where
  "scan_call = ''window.__PLAYWRIGHT_SCANNER__.scan()''"

subsection \<open>Statements, sequencing, exception handlers\<close>

text \<open>
  A block of statements yields the events it issued and either the exception that left
  it (\<open>Inl\<close>) or its value (\<open>Inr\<close>).
\<close>

type_synonym 'a comp = "event list \<times> (exn + 'a)"

definition ret :: "'a \<Rightarrow> 'a comp" where
  "ret a = ([], Inr a)"

definition log :: "string \<Rightarrow> unit comp" where
  "log line = ([Stderr line], Inr ())"

fun answer :: "'a outcome \<Rightarrow> exn + 'a" where
  "answer (Returns a) = Inr a"
| "answer (Raises e) = Inl e"

definition call :: "event \<Rightarrow> 'a outcome \<Rightarrow> 'a comp" where
  "call ev out = ([ev], answer out)"

definition compute :: "'a outcome \<Rightarrow> 'a comp" where
  "compute out = ([], answer out)"

fun seq :: "'a comp \<Rightarrow> ('a \<Rightarrow> 'b comp) \<Rightarrow> 'b comp" where
  "seq (t, Inl e) f = (t, Inl e)"
| "seq (t, Inr a) f = (case f a of (t', r) \<Rightarrow> (t @ t', r))"

text \<open>\<open>try: m except Exception as e: h e\<close>; other exceptions pass through.\<close>

fun try_except_Exception :: "'a comp \<Rightarrow> (exn \<Rightarrow> 'a comp) \<Rightarrow> 'a comp" where
  "try_except_Exception (t, Inl e) h =
     (if is_Exception e then (case h e of (t', r) \<Rightarrow> (t @ t', r)) else (t, Inl e))"
| "try_except_Exception (t, Inr a) h = (t, Inr a)"

text \<open>\<open>try: m except: h\<close>, the bare handler of line 74, which catches everything.\<close>

fun try_except :: "'a comp \<Rightarrow> 'a comp \<Rightarrow> 'a comp" where
  "try_except (t, Inl e) h = (case h of (t', r) \<Rightarrow> (t @ t', r))"
| "try_except (t, Inr a) h = (t, Inr a)"

text \<open>
  \<open>try: m except KeyboardInterrupt: hk except Exception as e: he e\<close> (lines 110-120).
\<close>

fun try_except_KeyboardInterrupt_Exception ::
  "'a comp \<Rightarrow> 'a comp \<Rightarrow> (exn \<Rightarrow> 'a comp) \<Rightarrow> 'a comp" where
  "try_except_KeyboardInterrupt_Exception (t, Inl KeyboardInterrupt) hk he =
     (case hk of (t', r) \<Rightarrow> (t @ t', r))"
| "try_except_KeyboardInterrupt_Exception (t, Inl (Exception m)) hk he =
     (case he (Exception m) of (t', r) \<Rightarrow> (t @ t', r))"
| "try_except_KeyboardInterrupt_Exception (t, Inr a) hk he = (t, Inr a)"

text \<open>Sequencing into a block that may never end (\<open>None\<close>).\<close>

fun seq_partial :: "'a comp \<Rightarrow> ('a \<Rightarrow> 'b comp option) \<Rightarrow> 'b comp option" where
  "seq_partial (t, Inl e) f = Some (t, Inl e)"
| "seq_partial (t, Inr a) f = map_option (\<lambda>(t', r). (t @ t', r)) (f a)"

subsection \<open>Phase 1: find or start the browser (lines 44-76)\<close>

definition attach :: "'v env \<Rightarrow> session comp" where
  "attach env =
     seq (call (ConnectOverCdp cdp_url) (connect_over_cdp env cdp_url)) (\<lambda>b.
     seq (log ''[SCANNER] SUCCESS - Connected to existing browser'') (\<lambda>_.
     if length (contexts b) > 0 \<and> length (pages (contexts b ! 0)) > 0
     then (let p = pages (contexts b ! 0) ! 0 in
           seq (log (''[SCANNER] Using existing page: '' @ url p)) (\<lambda>_.
           ret \<lparr>browser = b, page = p, is_existing_browser = True\<rparr>))
     else seq (call (NewPage b) (new_page env b)) (\<lambda>p.
          seq (log ''[SCANNER] Created new page in existing browser'') (\<lambda>_.
          ret \<lparr>browser = b, page = p, is_existing_browser = True\<rparr>))))"

definition wait_for_idle :: "'v env \<Rightarrow> Page \<Rightarrow> unit comp" where
  "wait_for_idle env p =
     try_except
       (seq (call (WaitForLoadState p ''networkidle'' 5000) (wait_for_load_state env p)) (\<lambda>_.
        log ''[SCANNER] Page loaded''))
       (log ''[SCANNER] Page load timeout (continuing anyway)'')"

definition navigate :: "'v env \<Rightarrow> Page \<Rightarrow> string \<Rightarrow> unit comp" where
  "navigate env p target =
     seq (log (''[SCANNER] Navigating to '' @ target @ ''...'')) (\<lambda>_.
     seq (call (Goto p target) (goto env p target)) (\<lambda>_.
     wait_for_idle env p))"

definition launch_new :: "'v env \<Rightarrow> request \<Rightarrow> exn \<Rightarrow> session comp" where
  "launch_new env req e =
     seq (log (''[SCANNER] No existing browser found ('' @ str e @ ''), launching new one...'')) (\<lambda>_.
     let is_headless = (lower (headless_mode req) = ''true'');
         args = [''--remote-debugging-port='' @ show_nat DEBUG_PORT] in
     seq (call (Launch is_headless args) (launch env is_headless args)) (\<lambda>b.
     seq (call (NewPage b) (new_page env b)) (\<lambda>p.
     seq (log ''[SCANNER] Browser launched successfully'') (\<lambda>_.
     seq (if target_url req \<noteq> [] then navigate env p (target_url req) else ret ()) (\<lambda>_.
     ret \<lparr>browser = b, page = p, is_existing_browser = False\<rparr>)))))"

definition find_or_start_browser :: "'v env \<Rightarrow> request \<Rightarrow> session comp" where
  "find_or_start_browser env req =
     seq (log (''[SCANNER] Attempting to connect to existing browser on port ''
               @ show_nat DEBUG_PORT @ ''...'')) (\<lambda>_.
     try_except_Exception (attach env) (launch_new env req))"

subsection \<open>Phase 2: scan (lines 79-92)\<close>

definition written :: "nat \<Rightarrow> string \<Rightarrow> event list" where
  "written k text = (if take k text = [] then [] else [Stdout (take k text)])"

definition print_json :: "'v env \<Rightarrow> string \<Rightarrow> unit comp" where
  "print_json env text =
     (case print_stdout env text of
        Printed \<Rightarrow> ([Stdout text], Inr ())
      | Interrupted k e \<Rightarrow> (written k text, Inl e))"

definition emit_json :: "'v env \<Rightarrow> 'v \<Rightarrow> unit comp" where
  "emit_json env elements =
     try_except_Exception
       (seq (compute (json_dumps env elements)) (\<lambda>text.
        seq (print_json env text) (\<lambda>_.
        call StdoutFlush (stdout_flush env))))
       (\<lambda>e. ret ())"

definition scan :: "'v env \<Rightarrow> string \<Rightarrow> Page \<Rightarrow> unit comp" where
  "scan env js_scanner_code p =
     seq (log ''[SCANNER] Starting DOM scan...'') (\<lambda>_.
     try_except_Exception
       (seq (call (Evaluate p js_scanner_code) (evaluate env 0 p js_scanner_code)) (\<lambda>_.
        seq (call (Evaluate p scan_call) (evaluate env 1 p scan_call)) (\<lambda>elements.
        seq (compute (len_result env elements)) (\<lambda>n.
        seq (log (''[SCANNER] Scan complete - found '' @ show_nat n @ '' elements'')) (\<lambda>_.
        emit_json env elements)))))
       (\<lambda>e. log (''[SCANNER] ERROR - Scan failed: '' @ str e)))"

subsection \<open>Phase 3: browser lifecycle (lines 95-124)\<close>

text \<open>
  \<open>while browser.is_connected(): time.sleep(1)\<close>. The loop has no bound: a browser
  that stays connected keeps it running, and then the value is \<open>None\<close>.
\<close>

definition after :: "event list \<Rightarrow> 'a comp \<Rightarrow> 'a comp" where
  "after t m = (case m of (t', r) \<Rightarrow> (t @ t', r))"

text \<open>One pass: the loop test, and the body when the test holds (\<open>Inr True\<close>: go on).\<close>

definition poll_once :: "'v env \<Rightarrow> Browser \<Rightarrow> nat \<Rightarrow> bool comp" where
  "poll_once env b i =
     seq (call (IsConnected b) (is_connected env b i)) (\<lambda>connected.
     if connected then seq (call (Sleep 1) (time_sleep env i)) (\<lambda>_. ret True)
     else ret False)"

partial_function (option) poll_loop :: "'v env \<Rightarrow> Browser \<Rightarrow> nat \<Rightarrow> unit comp option" where
  "poll_loop env b i =
     (case poll_once env b i of
        (t, Inl e) \<Rightarrow> Some (t, Inl e)
      | (t, Inr again) \<Rightarrow>
          if again
          then Option.bind (poll_loop env b (Suc i)) (\<lambda>rest. Some (after t rest))
          else Some (t, Inr ()))"

declare poll_loop.simps [code]

text \<open>The \<open>try\<close> statement around the loop (lines 110-120).\<close>

definition monitor :: "unit comp \<Rightarrow> unit comp" where
  "monitor loop =
     try_except_KeyboardInterrupt_Exception
       (seq loop (\<lambda>_. log ''[SCANNER] Browser was closed by user''))
       (log ''[SCANNER] Scan interrupted by user'')
       (\<lambda>e. log (''[SCANNER] Browser monitoring error: '' @ str e))"

definition keep_alive :: "'v env \<Rightarrow> Browser \<Rightarrow> unit comp option" where
  "keep_alive env b = map_option monitor (poll_loop env b 0)"

definition lifecycle :: "'v env \<Rightarrow> string \<Rightarrow> session \<Rightarrow> unit comp option" where
  "lifecycle env keep_open_arg s =
     (let should_keep_open = (lower keep_open_arg = ''true'') in
      seq_partial (log (''[SCANNER] Browser lifecycle - is_existing: ''
                        @ str_bool (is_existing_browser s)
                        @ '', keep_open: '' @ str_bool should_keep_open)) (\<lambda>_.
      if is_existing_browser s then
        Some (log ''[SCANNER] Connected to existing browser - leaving it open (not calling close())'')
      else if should_keep_open then
        seq_partial (log ''[SCANNER] Browser launched. Keeping open for CDP access...'') (\<lambda>_.
        seq_partial (log ''[SCANNER] Browser will stay open until manually closed by user'') (\<lambda>_.
        keep_alive env (browser s)))
      else
        Some (seq (log ''[SCANNER] Keep Open disabled - closing browser...'') (\<lambda>_.
              seq (call (Close (browser s)) (browser_close env (browser s))) (\<lambda>_.
              log ''[SCANNER] Browser closed'')))))"

subsection \<open>The whole of \<open>run_scan\<close>\<close>

text \<open>
  \<open>with sync_playwright() as p: body\<close>: the context manager is left, and Playwright
  stopped, however the body ends.
\<close>

definition with_sync_playwright :: "'v env \<Rightarrow> 'a comp option \<Rightarrow> 'a comp option" where
  "with_sync_playwright env body =
     (case sync_playwright env of
        Raises e \<Rightarrow> Some ([PlaywrightStart], Inl e)
      | Returns _ \<Rightarrow> map_option (\<lambda>(t, r). (PlaywrightStart # t @ [PlaywrightStop], r)) body)"

definition playwright_body :: "'v env \<Rightarrow> request \<Rightarrow> string \<Rightarrow> unit comp option" where
  "playwright_body env req js_scanner_code =
     seq_partial (find_or_start_browser env req) (\<lambda>s.
     seq_partial (scan env js_scanner_code (page s)) (\<lambda>_.
     lifecycle env (keep_open req) s))"

definition try_body :: "'v env \<Rightarrow> request \<Rightarrow> unit comp option" where
  "try_body env req =
     seq_partial (call (OpenRead (js_file_path req)) (open_read env (js_file_path req))) (\<lambda>js_scanner_code.
     with_sync_playwright env (playwright_body env req js_scanner_code))"

text \<open>
  How the process ends: the function returns and the script with it (status 0);
  \<open>sys.exit(1)\<close> in the handler of line 126; or an exception that the handler does not
  catch leaves \<open>run_scan\<close>.
\<close>

datatype ending = Completed | SysExit int | Uncaught exn

record result =
  trace :: "event list"
  ending :: ending

fun top_level :: "unit comp \<Rightarrow> result" where
  "top_level (t, Inr _) = \<lparr>trace = t, ending = Completed\<rparr>"
| "top_level (t, Inl e) =
     (if is_Exception e
      then \<lparr>trace = t @ [Stderr (''CRITICAL ERROR: '' @ str e)], ending = SysExit 1\<rparr>
      else \<lparr>trace = t, ending = Uncaught e\<rparr>)"

definition start_lines :: "request \<Rightarrow> event list" where
  "start_lines req =
     [Stderr (''[SCANNER] Starting scan - URL: '' @ target_url req
              @ '', Headless: '' @ headless_mode req
              @ '', Keep Open: '' @ keep_open req),
      ThreadStart]"

definition run_scan :: "request \<Rightarrow> 'v env \<Rightarrow> result option" where
  "run_scan req env =
     map_option (\<lambda>m. top_level (after (start_lines req) m)) (try_body env req)"

subsection \<open>Observations on a trace\<close>

fun stdout_of :: "event list \<Rightarrow> string list" where
  "stdout_of [] = []"
| "stdout_of (Stdout text # t) = text # stdout_of t"
| "stdout_of (ev # t) = stdout_of t"

fun evaluated_pages :: "event list \<Rightarrow> Page list" where
  "evaluated_pages [] = []"
| "evaluated_pages (Evaluate p code # t) = p # evaluated_pages t"
| "evaluated_pages (ev # t) = evaluated_pages t"

fun closes_of :: "event list \<Rightarrow> Browser list" where
  "closes_of [] = []"
| "closes_of (Close b # t) = b # closes_of t"
| "closes_of (ev # t) = closes_of t"

text \<open>
  Observations on the polling loop: the first \<open>n\<close> passes found the browser connected
  and slept; the events of \<open>n\<close> such passes; the first line of phase 3.
\<close>

primrec still_connected :: "'v env \<Rightarrow> Browser \<Rightarrow> nat \<Rightarrow> bool" where
  "still_connected env b 0 = True"
| "still_connected env b (Suc n) =
     (still_connected env b n \<and> is_connected env b n = Returns True \<and> time_sleep env n = Returns ())"

primrec polls :: "Browser \<Rightarrow> nat \<Rightarrow> event list" where
  "polls b 0 = []"
| "polls b (Suc n) = polls b n @ [IsConnected b, Sleep 1]"

definition lifecycle_line :: "bool \<Rightarrow> string \<Rightarrow> event" where
  "lifecycle_line existing keep_open_arg =
     Stderr (''[SCANNER] Browser lifecycle - is_existing: '' @ str_bool existing
             @ '', keep_open: '' @ str_bool (lower keep_open_arg = ''true''))"

subsection \<open>Example environments\<close>

text \<open>
  \<open>fresh_env\<close>: nothing listens on the debugging port, a browser is launched, the scan
  finds no element, and the browser is seen connected twice and then gone.
  \<open>attach_env\<close>: a running browser with one page answers on the port.
\<close>

definition launched :: Browser where
  "launched = \<lparr>browser_id = 1, contexts = []\<rparr>"

definition blank_page :: Page where
  "blank_page = \<lparr>page_id = 7, url = ''about:blank''\<rparr>"

definition open_page :: Page where
  "open_page = \<lparr>page_id = 3, url = ''http://localhost:3000/''\<rparr>"

definition running :: Browser where
  "running = \<lparr>browser_id = 2, contexts = [\<lparr>pages = [open_page]\<rparr>]\<rparr>"

definition fresh_env :: "string list env" where
  "fresh_env = \<lparr>
     open_read = (\<lambda>path. Returns ''/* scanner */''),
     sync_playwright = Returns (),
     connect_over_cdp = (\<lambda>u. Raises (Exception ''ECONNREFUSED'')),
     launch = (\<lambda>h args. Returns launched),
     new_page = (\<lambda>b. Returns blank_page),
     goto = (\<lambda>p u. Returns ()),
     wait_for_load_state = (\<lambda>p. Returns ()),
     evaluate = (\<lambda>i p code. Returns []),
     len_result = (\<lambda>v. Returns (length v)),
     json_dumps = (\<lambda>v. Returns ''[]''),
     print_stdout = (\<lambda>out. Printed),
     stdout_flush = Returns (),
     is_connected = (\<lambda>b i. Returns (i < 2)),
     time_sleep = (\<lambda>i. Returns ()),
     browser_close = (\<lambda>b. Returns ())\<rparr>"

definition attach_env :: "string list env" where
  "attach_env = fresh_env\<lparr>connect_over_cdp := (\<lambda>u. Returns running)\<rparr>"

definition example_request :: request where
  "example_request = \<lparr>js_file_path = ''scanner.js'', target_url = ''http://localhost:3000/'',
                        headless_mode = ''false'', keep_open = ''True''\<rparr>"

definition close_request :: request where
  "close_request = example_request\<lparr>keep_open := ''false''\<rparr>"

definition keep_open_lines :: "string \<Rightarrow> event list" where
  "keep_open_lines keep_open_arg =
     [lifecycle_line False keep_open_arg,
      Stderr ''[SCANNER] Browser launched. Keeping open for CDP access...'',
      Stderr ''[SCANNER] Browser will stay open until manually closed by user'']"

definition missing_script_env :: "string list env" where
  "missing_script_env =
     fresh_env\<lparr>open_read := (\<lambda>path. Raises (Exception ''No such file or directory''))\<rparr>"

definition monitor_error_env :: "string list env" where
  "monitor_error_env =
     fresh_env\<lparr>is_connected := (\<lambda>b i. Raises (Exception ''Target closed''))\<rparr>"

definition launched_session :: session where
  "launched_session = \<lparr>browser = launched, page = blank_page, is_existing_browser = False\<rparr>"

text \<open>
  The two ways out of the polling loop that the specification names, at pass \<open>n\<close>: the
  browser reports disconnected, or a signal interrupts the loop. This definition follows
  the specification's sentence, not the source; it is compared with the source's loop in C3.
\<close>

definition spec_leaves_loop :: "'v env \<Rightarrow> Browser \<Rightarrow> nat \<Rightarrow> bool" where
  "spec_leaves_loop env b n =
     (is_connected env b n = Returns False
      \<or> is_connected env b n = Raises KeyboardInterrupt
      \<or> (is_connected env b n = Returns True \<and> time_sleep env n = Raises KeyboardInterrupt))"

text \<open>
  \<open>scan_error_env\<close>: the scanner script loads and the entry point throws.
  \<open>dumps_error_env\<close>: the scan returns a value that \<open>json.dumps\<close> rejects.
\<close>

definition scan_error_env :: "string list env" where
  "scan_error_env =
     fresh_env\<lparr>evaluate := (\<lambda>i p code. if i = 0 then Returns []
                                       else Raises (Exception ''scan is not a function''))\<rparr>"


text \<open>
  \<open>bare_attach_env\<close>: the running browser has no browsing context.
  \<open>nav_error_env\<close>: the launched browser cannot reach the target.
\<close>

definition empty_browser :: Browser where
  "empty_browser = \<lparr>browser_id = 4, contexts = []\<rparr>"

definition bare_attach_env :: "string list env" where
  "bare_attach_env = fresh_env\<lparr>connect_over_cdp := (\<lambda>u. Returns empty_browser)\<rparr>"


subsection \<open>The process: main thread and watchdog\<close>

text \<open>
  The events of the main thread up to a moment. A run that polls forever has no final
  trace, but its first \<open>n\<close> events are determined all the same: pass number \<open>n\<close> of the
  polling loop cannot begin within \<open>n\<close> events, so what that pass and the later ones are
  answered does not matter to them. They are computed in the environment \<open>stop_at n env\<close>,
  where that pass finds the browser gone and the flow therefore returns. Below,
  \<open>stop_at_returns\<close>, \<open>main_prefix_of_run\<close> and \<open>main_prefix_grows\<close> show that this
  is sound: the flow returns there, the prefix is that of the real trace whenever the real
  run returns, and the prefixes extend one another.
\<close>

definition stop_at :: "nat \<Rightarrow> 'v env \<Rightarrow> 'v env" where
  "stop_at n env =
     env\<lparr>is_connected := (\<lambda>b i. if i < n then is_connected env b i else Returns False)\<rparr>"

definition main_prefix :: "nat \<Rightarrow> request \<Rightarrow> 'v env \<Rightarrow> event list" where
  "main_prefix n req env =
     (case run_scan req (stop_at n env) of None \<Rightarrow> [] | Some r \<Rightarrow> take n (trace r))"

text \<open>
  The process. Lines 30-31 start the watchdog, a daemon thread blocked in
  \<open>sys.stdin.read()\<close>. Its schedule is \<open>None\<close> when the read is still blocked as the main
  thread ends (the daemon thread dies with the process), and \<open>Some (k, stdin_read)\<close> when
  the read ends, with \<open>stdin_read\<close>, at the moment the main thread has issued \<open>k\<close> events
  since \<open>t.start()\<close>. If the main thread gets that far, \<open>os._exit\<close> ends the process
  there and then, after the main thread's last event at the latest; otherwise the main
  thread has ended the process before.
\<close>

datatype process_end = MainEnded ending | Killed int

record process =
  seen :: "event list"
  how_ended :: process_end

definition main_alone :: "request \<Rightarrow> 'v env \<Rightarrow> process option" where
  "main_alone req env =
     map_option (\<lambda>r. \<lparr>seen = trace r, how_ended = MainEnded (ending r)\<rparr>) (run_scan req env)"

definition run_process ::
  "request \<Rightarrow> 'v env \<Rightarrow> (nat \<times> string outcome) option \<Rightarrow> process option" where
  "run_process req env stdin =
     (case stdin of
        None \<Rightarrow> main_alone req env
      | Some (k, stdin_read) \<Rightarrow>
          (case parent_watchdog stdin_read of
             ThreadDied e \<Rightarrow> main_alone req env
           | OsExit code \<Rightarrow>
               (let n = length (start_lines req) + k in
                if length (main_prefix n req env) = n
                then Some \<lparr>seen = main_prefix n req env, how_ended = Killed code\<rparr>
                else main_alone req env)))"

subsection \<open>Well-formed JSON\<close>

text \<open>
  The specification asks for "syntactically valid JSON". This recogniser follows the
  grammar of RFC 8259, not the source: a JSON text is a value between optional white space;
  a value is an array, an object, a string, a number or one of three literals. \<open>json_chars\<close>
  reads a string after its opening quote, \<open>json_number\<close> a number; each returns what is
  left of the input. The counter of \<open>json_value\<close> bounds the nesting and is set to more than
  the length of the text.
\<close>

definition is_ws :: "char \<Rightarrow> bool" where
  "is_ws c = (c = CHR '' '' \<or> c = CHR 0x09 \<or> c = CHR 0x0A \<or> c = CHR 0x0D)"

definition is_digit :: "char \<Rightarrow> bool" where
  "is_digit c = (c \<in> set ''0123456789'')"

definition is_hex :: "char \<Rightarrow> bool" where
  "is_hex c = (c \<in> set ''0123456789abcdefABCDEF'')"

definition is_control :: "char \<Rightarrow> bool" where
  "is_control c = (of_char c < (32::nat))"

definition skip_ws :: "string \<Rightarrow> string" where
  "skip_ws cs = dropWhile is_ws cs"

fun json_chars :: "string \<Rightarrow> string option" where
  "json_chars [] = None"
| "json_chars (c # cs) =
     (if c = CHR 0x22 then Some cs
      else if c = CHR 0x5C then
        (case cs of
           [] \<Rightarrow> None
         | e # r \<Rightarrow>
             if e = CHR 0x22 \<or> e = CHR 0x5C \<or> e \<in> set ''/bfnrt'' then json_chars r
             else if e = CHR ''u'' then
               (case r of
                  h1 # h2 # h3 # h4 # r' \<Rightarrow>
                    if is_hex h1 \<and> is_hex h2 \<and> is_hex h3 \<and> is_hex h4 then json_chars r'
                    else None
                | _ \<Rightarrow> None)
             else None)
      else if is_control c then None
      else json_chars cs)"

definition json_digits :: "string \<Rightarrow> string option" where
  "json_digits cs =
     (case cs of [] \<Rightarrow> None
      | d # r \<Rightarrow> if is_digit d then Some (dropWhile is_digit r) else None)"

definition json_int :: "string \<Rightarrow> string option" where
  "json_int cs =
     (case cs of [] \<Rightarrow> None
      | d # r \<Rightarrow> if d = CHR ''0'' then Some r else json_digits cs)"

definition json_frac :: "string \<Rightarrow> string option" where
  "json_frac cs =
     (case cs of [] \<Rightarrow> Some []
      | c # r \<Rightarrow> if c = CHR ''.'' then json_digits r else Some cs)"

definition json_exp :: "string \<Rightarrow> string option" where
  "json_exp cs =
     (case cs of [] \<Rightarrow> Some []
      | c # r \<Rightarrow>
          if c = CHR ''e'' \<or> c = CHR ''E'' then
            (case r of [] \<Rightarrow> None
             | s # r' \<Rightarrow> if s = CHR ''+'' \<or> s = CHR ''-'' then json_digits r' else json_digits r)
          else Some cs)"

definition json_number :: "string \<Rightarrow> string option" where
  "json_number cs =
     Option.bind (json_int (case cs of c # r \<Rightarrow> if c = CHR ''-'' then r else cs | [] \<Rightarrow> []))
       (\<lambda>r. Option.bind (json_frac r) json_exp)"

definition json_literal :: "string \<Rightarrow> string \<Rightarrow> string option" where
  "json_literal lit cs =
     (if take (length lit) cs = lit then Some (drop (length lit) cs) else None)"

fun json_value :: "nat \<Rightarrow> string \<Rightarrow> string option"
  and json_elements :: "nat \<Rightarrow> string \<Rightarrow> string option"
  and json_members :: "nat \<Rightarrow> string \<Rightarrow> string option" where
  "json_value 0 cs = None"
| "json_value (Suc f) cs =
     (case cs of
        [] \<Rightarrow> None
      | c # r \<Rightarrow>
          if c = CHR ''['' then
            (case skip_ws r of
               [] \<Rightarrow> None
             | d # r' \<Rightarrow> if d = CHR '']'' then Some r' else json_elements f (d # r'))
          else if c = CHR ''{'' then
            (case skip_ws r of
               [] \<Rightarrow> None
             | d # r' \<Rightarrow> if d = CHR ''}'' then Some r' else json_members f (d # r'))
          else if c = CHR 0x22 then json_chars r
          else if c = CHR ''t'' then json_literal ''true'' cs
          else if c = CHR ''f'' then json_literal ''false'' cs
          else if c = CHR ''n'' then json_literal ''null'' cs
          else json_number cs)"
| "json_elements 0 cs = None"
| "json_elements (Suc f) cs =
     (case json_value f cs of
        None \<Rightarrow> None
      | Some r \<Rightarrow>
          (case skip_ws r of
             [] \<Rightarrow> None
           | d # r' \<Rightarrow>
               if d = CHR '','' then json_elements f (skip_ws r')
               else if d = CHR '']'' then Some r'
               else None))"
| "json_members 0 cs = None"
| "json_members (Suc f) cs =
     (case cs of
        [] \<Rightarrow> None
      | q # r \<Rightarrow>
          if q = CHR 0x22 then
            (case json_chars r of
               None \<Rightarrow> None
             | Some r1 \<Rightarrow>
                 (case skip_ws r1 of
                    [] \<Rightarrow> None
                  | colon # r2 \<Rightarrow>
                      if colon = CHR '':'' then
                        (case json_value f (skip_ws r2) of
                           None \<Rightarrow> None
                         | Some r3 \<Rightarrow>
                             (case skip_ws r3 of
                                [] \<Rightarrow> None
                              | d # r4 \<Rightarrow>
                                  if d = CHR '','' then json_members f (skip_ws r4)
                                  else if d = CHR ''}'' then Some r4
                                  else None))
                      else None))
          else None)"









fun stderr_of :: "event list \<Rightarrow> string list" where
  "stderr_of [] = []"
| "stderr_of (Stderr line # t) = line # stderr_of t"
| "stderr_of (ev # t) = stderr_of t"

section \<open>Properties\<close>

subsection \<open>The shape of a run, and of the polling loop\<close>

lemma run_scan_unfold:
  "run_scan req env =
     (case open_read env (js_file_path req) of
        Raises e \<Rightarrow> Some (top_level (start_lines req @ [OpenRead (js_file_path req)], Inl e))
      | Returns js \<Rightarrow>
         (case sync_playwright env of
            Raises e \<Rightarrow>
              Some (top_level (start_lines req @ [OpenRead (js_file_path req), PlaywrightStart], Inl e))
          | Returns _ \<Rightarrow>
             (case find_or_start_browser env req of
                (t1, Inl e) \<Rightarrow>
                  Some (top_level (start_lines req @ [OpenRead (js_file_path req), PlaywrightStart]
                                   @ t1 @ [PlaywrightStop], Inl e))
              | (t1, Inr s) \<Rightarrow>
                 (case scan env js (page s) of
                    (t2, Inl e) \<Rightarrow>
                      Some (top_level (start_lines req @ [OpenRead (js_file_path req), PlaywrightStart]
                                       @ t1 @ t2 @ [PlaywrightStop], Inl e))
                  | (t2, Inr _) \<Rightarrow>
                      map_option
                        (\<lambda>(t3, r). top_level (start_lines req
                                               @ [OpenRead (js_file_path req), PlaywrightStart]
                                               @ t1 @ t2 @ t3 @ [PlaywrightStop], r))
                        (lifecycle env (keep_open req) s)))))"
  by (simp add: run_scan_def try_body_def playwright_body_def with_sync_playwright_def call_def
        after_def option.map_comp comp_def map_option_case
      split: outcome.splits prod.splits sum.splits option.splits)

lemma poll_loop_unroll:
  "(\<And>k. k < n \<Longrightarrow> snd (poll_once env b (i + k)) = Inr True) \<Longrightarrow>
   poll_loop env b i =
     Option.bind (poll_loop env b (i + n))
       (\<lambda>rest. Some (after (concat (map (\<lambda>k. fst (poll_once env b (i + k))) [0..<n])) rest))"
proof (induction n arbitrary: i)
  case 0
  show ?case by (cases "poll_loop env b i") (auto simp: after_def)
next
  case (Suc n)
  have first: "snd (poll_once env b i) = Inr True" using Suc.prems[of 0] by simp
  have "\<And>k. k < n \<Longrightarrow> snd (poll_once env b (Suc i + k)) = Inr True"
    using Suc.prems[of "Suc k" for k] by simp
  from Suc.IH[OF this]
  have rest: "poll_loop env b (Suc i) =
     Option.bind (poll_loop env b (Suc i + n))
       (\<lambda>rest. Some (after (concat (map (\<lambda>k. fst (poll_once env b (Suc i + k))) [0..<n])) rest))" .
  have shift: "map (\<lambda>k. fst (poll_once env b (i + k))) [0..<Suc n] =
               fst (poll_once env b i) # map (\<lambda>k. fst (poll_once env b (Suc i + k))) [0..<n]"
    by (simp add: upt_conv_Cons map_Suc_upt[symmetric] del: upt_Suc)
  show ?case
    apply (subst poll_loop.simps)
    apply (subst rest)
    apply (subst shift)
    using first
    apply (cases "poll_once env b i"; cases "poll_loop env b (Suc (i + n))")
     apply (auto simp: after_def split: prod.splits)
    done
qed

lemma poll_loop_never:
  assumes "poll_loop env b i = Some m"
  shows "\<exists>k. snd (poll_once env b (i + k)) \<noteq> Inr True"
  using assms
proof (induction rule: poll_loop.raw_induct[rotated 1, consumes 1, case_names step])
  case (step loop env b i m)
  show ?case
  proof (cases "snd (poll_once env b i) = Inr True")
    case False then show ?thesis by (intro exI[of _ 0]) simp
  next
    case True
    then obtain t where po: "poll_once env b i = (t, Inr True)" by (cases "poll_once env b i") auto
    with step(2) obtain rest where "loop env b (Suc i) = Some rest"
      by (auto split: Option.bind_splits)
    from step(1)[OF this] obtain k where "snd (poll_once env b (Suc i + k)) \<noteq> Inr True" by blast
    then show ?thesis by (intro exI[of _ "Suc k"]) simp
  qed
qed

lemma poll_once_again:
  "snd (poll_once env b k) = Inr True \<longleftrightarrow>
   is_connected env b k = Returns True \<and> time_sleep env k = Returns ()"
  by (cases "is_connected env b k"; cases "time_sleep env k")
     (auto simp: poll_once_def call_def ret_def)

lemma poll_once_again_trace:
  "snd (poll_once env b k) = Inr True \<Longrightarrow> fst (poll_once env b k) = [IsConnected b, Sleep 1]"
  by (cases "is_connected env b k"; cases "time_sleep env k")
     (auto simp: poll_once_def call_def ret_def split: if_splits)

lemma still_connected_iff:
  "still_connected env b n \<longleftrightarrow> (\<forall>k<n. snd (poll_once env b k) = Inr True)"
  by (induction n) (auto simp: poll_once_again less_Suc_eq)

lemma polls_trace:
  "still_connected env b n \<Longrightarrow>
   concat (map (\<lambda>k. fst (poll_once env b (0 + k))) [0..<n]) = polls b n"
proof (induction n)
  case 0 show ?case by simp
next
  case (Suc n)
  then have "fst (poll_once env b n) = [IsConnected b, Sleep 1]"
    by (simp add: poll_once_again_trace poll_once_again)
  with Suc show ?case
    by simp
qed

lemma poll_loop_exit:
  assumes "still_connected env b n"
  shows "poll_loop env b 0 =
           Option.bind (poll_loop env b n) (\<lambda>rest. Some (after (polls b n) rest))"
  using poll_loop_unroll[of n env b 0] assms polls_trace[OF assms]
  by (simp add: still_connected_iff)

lemma poll_loop_forever:
  assumes "\<And>n. still_connected env b n"
  shows "poll_loop env b 0 = None"
proof (cases "poll_loop env b 0")
  case (Some m)
  from poll_loop_never[OF this] obtain k where "snd (poll_once env b k) \<noteq> Inr True" by auto
  moreover have "still_connected env b (Suc k)" by (rule assms)
  ultimately show ?thesis by (simp add: poll_once_again)
qed simp

lemma lifecycle_existing:
  "is_existing_browser s \<Longrightarrow>
   lifecycle env ko s =
     Some ([lifecycle_line True ko,
            Stderr ''[SCANNER] Connected to existing browser - leaving it open (not calling close())''],
           Inr ())"
  by (simp add: lifecycle_def lifecycle_line_def log_def)

lemma lifecycle_close:
  "\<not> is_existing_browser s \<Longrightarrow> lower ko \<noteq> ''true'' \<Longrightarrow>
   lifecycle env ko s =
     Some (case browser_close env (browser s) of
             Returns _ \<Rightarrow>
               ([lifecycle_line False ko, Stderr ''[SCANNER] Keep Open disabled - closing browser...'',
                 Close (browser s), Stderr ''[SCANNER] Browser closed''], Inr ())
           | Raises e \<Rightarrow>
               ([lifecycle_line False ko, Stderr ''[SCANNER] Keep Open disabled - closing browser...'',
                 Close (browser s)], Inl e))"
  by (simp add: lifecycle_def lifecycle_line_def log_def call_def split: outcome.splits)

lemma lifecycle_keep:
  "\<not> is_existing_browser s \<Longrightarrow> lower ko = ''true'' \<Longrightarrow>
   lifecycle env ko s =
     map_option
       (\<lambda>loop. after [lifecycle_line False ko,
                        Stderr ''[SCANNER] Browser launched. Keeping open for CDP access...'',
                        Stderr ''[SCANNER] Browser will stay open until manually closed by user'']
                 (monitor loop))
       (poll_loop env (browser s) 0)"
  by (simp add: lifecycle_def lifecycle_line_def log_def keep_alive_def after_def
        option.map_comp comp_def case_prod_unfold)

subsection \<open>What the phases write and call\<close>

lemma answer_case: "answer out = (case out of Returns a \<Rightarrow> Inr a | Raises e \<Rightarrow> Inl e)"
  by (cases out) simp_all

lemma stdout_of_append [simp]: "stdout_of (a @ b) = stdout_of a @ stdout_of b"
  by (induction a rule: stdout_of.induct) simp_all

lemma closes_of_append [simp]: "closes_of (a @ b) = closes_of a @ closes_of b"
  by (induction a rule: closes_of.induct) simp_all

lemma polls_quiet [simp]: "closes_of (polls b n) = []" "stdout_of (polls b n) = []"
  by (induction n) simp_all

lemmas phase_defs = find_or_start_browser_def attach_def launch_new_def navigate_def
  wait_for_idle_def
  scan_def emit_json_def print_json_def written_def log_def call_def compute_def ret_def answer_case

lemma resolve_quiet:
  "closes_of (fst (find_or_start_browser env req)) = []"
  "stdout_of (fst (find_or_start_browser env req)) = []"
  by (auto simp: phase_defs Let_def split: outcome.splits if_splits exn.splits)

lemma scan_no_close: "closes_of (fst (scan env js p)) = []"
  by (auto simp: phase_defs Let_def split: outcome.splits printed.splits if_splits exn.splits)

lemma not_is_Exception [simp]: "(\<not> is_Exception e) = (e = KeyboardInterrupt)"
  by (cases e) simp_all

lemma scan_result: "snd (scan env js p) = Inr () \<or> snd (scan env js p) = Inl KeyboardInterrupt"
  by (auto simp: phase_defs Let_def split: outcome.splits printed.splits if_splits exn.splits)

lemma lower_True: "lower ''True'' = ''true''" by (simp add: lower_def lower_char_def)
lemma lower_false: "lower ''false'' \<noteq> ''true''" by (simp add: lower_def lower_char_def)

lemma fresh_session:
  "snd (find_or_start_browser fresh_env req) =
     Inr \<lparr>browser = launched, page = blank_page, is_existing_browser = False\<rparr>"
  by (simp add: phase_defs fresh_env_def Let_def)

lemma attach_session:
  "snd (find_or_start_browser attach_env req) =
     Inr \<lparr>browser = running, page = open_page, is_existing_browser = True\<rparr>"
  by (simp add: phase_defs attach_env_def fresh_env_def running_def Let_def)

lemma run_close: "map_option ending (run_scan close_request fresh_env) = Some Completed"
  by (simp add: run_scan_unfold phase_defs fresh_env_def close_request_def example_request_def
                lifecycle_def Let_def lower_false)

lemma closes_top_level [simp]: "closes_of (trace (top_level (t, r))) = closes_of t"
  by (cases r) simp_all

lemma stdout_top_level [simp]: "stdout_of (trace (top_level (t, r))) = stdout_of t"
  by (cases r) simp_all

lemma start_lines_quiet [simp]:
  "closes_of (start_lines req) = []" "stdout_of (start_lines req) = []"
  by (simp_all add: start_lines_def)

lemma lifecycle_line_quiet [simp]:
  "closes_of (lifecycle_line x ko # t) = closes_of t"
  "stdout_of (lifecycle_line x ko # t) = stdout_of t"
  by (simp_all add: lifecycle_line_def)

subsection \<open>Leaving the polling loop\<close>

lemma first_disconnect:
  "\<not> still_connected env b N \<Longrightarrow>
   \<exists>n. still_connected env b n
       \<and> \<not> (is_connected env b n = Returns True \<and> time_sleep env n = Returns ())"
  by (induction N) auto

lemma lifecycle_keep_lines:
  "\<not> is_existing_browser s \<Longrightarrow> lower ko = ''true'' \<Longrightarrow>
   lifecycle env ko s =
     map_option (\<lambda>loop. after (keep_open_lines ko) (monitor loop)) (poll_loop env (browser s) 0)"
  by (simp add: lifecycle_keep keep_open_lines_def)

lemma keep_alive_leaves:
  assumes "\<not> is_existing_browser s" and "lower ko = ''true''"
    and "still_connected env (browser s) n"
    and "poll_once env (browser s) n = (t, r)" and "r \<noteq> Inr True"
  shows "lifecycle env ko s =
           Some (after (keep_open_lines ko) (monitor (polls (browser s) n @ t, map_sum id (\<lambda>_. ()) r)))"
proof -
  have "poll_loop env (browser s) n = Some (t, map_sum id (\<lambda>_. ()) r)"
    using assms(4,5) by (subst poll_loop.simps) (auto split: sum.splits)
  then have "poll_loop env (browser s) 0 = Some (polls (browser s) n @ t, map_sum id (\<lambda>_. ()) r)"
    using poll_loop_exit[OF assms(3)] by (simp add: after_def)
  then show ?thesis using assms(1,2) by (simp add: lifecycle_keep_lines)
qed

lemma keep_alive_cases:
  assumes "\<not> is_existing_browser s" and "lower ko = ''true''"
  shows "lifecycle env ko s = None \<and> (\<forall>n. still_connected env (browser s) n)
    \<or> (\<exists>n t. still_connected env (browser s) n
          \<and> lifecycle env ko s = Some (keep_open_lines ko @ polls (browser s) n @ t, Inr ())
          \<and> (is_connected env (browser s) n = Returns False
                \<and> t = [IsConnected (browser s), Stderr ''[SCANNER] Browser was closed by user'']
              \<or> is_connected env (browser s) n = Raises KeyboardInterrupt
                \<and> t = [IsConnected (browser s), Stderr ''[SCANNER] Scan interrupted by user'']
              \<or> (\<exists>m. is_connected env (browser s) n = Raises (Exception m)
                \<and> t = [IsConnected (browser s),
                        Stderr (''[SCANNER] Browser monitoring error: '' @ m)])
              \<or> is_connected env (browser s) n = Returns True
                \<and> time_sleep env n = Raises KeyboardInterrupt
                \<and> t = [IsConnected (browser s), Sleep 1,
                        Stderr ''[SCANNER] Scan interrupted by user'']
              \<or> (\<exists>m. is_connected env (browser s) n = Returns True
                \<and> time_sleep env n = Raises (Exception m)
                \<and> t = [IsConnected (browser s), Sleep 1,
                        Stderr (''[SCANNER] Browser monitoring error: '' @ m)])))"
proof (cases "\<forall>n. still_connected env (browser s) n")
  case True
  then have "poll_loop env (browser s) 0 = None" by (intro poll_loop_forever) simp
  with True assms show ?thesis by (simp add: lifecycle_keep_lines)
next
  case False
  then obtain N where "\<not> still_connected env (browser s) N" by blast
  from first_disconnect[OF this] obtain n where
    sc: "still_connected env (browser s) n" and
    lv: "\<not> (is_connected env (browser s) n = Returns True \<and> time_sleep env n = Returns ())"
    by blast
  note L = keep_alive_leaves[OF assms sc]
  show ?thesis
  proof (cases "is_connected env (browser s) n")
    case (Raises e)
    then have po: "poll_once env (browser s) n = ([IsConnected (browser s)], Inl e)"
      by (simp add: poll_once_def call_def)
    show ?thesis
    proof (cases e)
      case KeyboardInterrupt
      with L[OF po] have
        "lifecycle env ko s = Some (keep_open_lines ko @ polls (browser s) n
           @ [IsConnected (browser s), Stderr ''[SCANNER] Scan interrupted by user''], Inr ())"
        by (simp add: monitor_def log_def after_def)
      with sc Raises KeyboardInterrupt show ?thesis by blast
    next
      case (Exception m)
      with L[OF po] have
        "lifecycle env ko s = Some (keep_open_lines ko @ polls (browser s) n
           @ [IsConnected (browser s), Stderr (''[SCANNER] Browser monitoring error: '' @ m)],
           Inr ())"
        by (simp add: monitor_def log_def after_def)
      with sc Raises Exception show ?thesis by blast
    qed
  next
    case (Returns c)
    show ?thesis
    proof (cases c)
      case False
      with Returns have po: "poll_once env (browser s) n = ([IsConnected (browser s)], Inr False)"
        by (simp add: poll_once_def call_def ret_def)
      from L[OF po] have
        "lifecycle env ko s = Some (keep_open_lines ko @ polls (browser s) n
           @ [IsConnected (browser s), Stderr ''[SCANNER] Browser was closed by user''], Inr ())"
        by (simp add: monitor_def log_def after_def)
      moreover have "is_connected env (browser s) n = Returns False" using Returns False by simp
      ultimately show ?thesis using sc by blast
    next
      case True
      with Returns lv obtain e where sl: "time_sleep env n = Raises e"
        by (cases "time_sleep env n") auto
      have ic: "is_connected env (browser s) n = Returns True" using Returns True by simp
      from ic sl have
        po: "poll_once env (browser s) n = ([IsConnected (browser s), Sleep 1], Inl e)"
        by (simp add: poll_once_def call_def ret_def)
      show ?thesis
      proof (cases e)
        case KeyboardInterrupt
        with L[OF po] have
          "lifecycle env ko s = Some (keep_open_lines ko @ polls (browser s) n
             @ [IsConnected (browser s), Sleep 1, Stderr ''[SCANNER] Scan interrupted by user''],
             Inr ())"
          by (simp add: monitor_def log_def after_def)
        with sc ic sl KeyboardInterrupt show ?thesis by blast
      next
        case (Exception m)
        with L[OF po] have
          "lifecycle env ko s = Some (keep_open_lines ko @ polls (browser s) n
             @ [IsConnected (browser s), Sleep 1,
                Stderr (''[SCANNER] Browser monitoring error: '' @ m)], Inr ())"
          by (simp add: monitor_def log_def after_def)
        with sc ic sl Exception show ?thesis by blast
      qed
    qed
  qed
qed

lemma run_reaches_lifecycle:
  assumes "open_read env (js_file_path req) = Returns js" and "sync_playwright env = Returns u"
    and "snd (find_or_start_browser env req) = Inr s"
    and "snd (scan env js (page s)) = Inr u'"
  shows "run_scan req env =
           map_option
             (\<lambda>(t3, r). top_level (start_lines req
                                    @ [OpenRead (js_file_path req), PlaywrightStart]
                                    @ fst (find_or_start_browser env req)
                                    @ fst (scan env js (page s)) @ t3 @ [PlaywrightStop], r))
             (lifecycle env (keep_open req) s)"
proof -
  obtain t1 where res: "find_or_start_browser env req = (t1, Inr s)"
    using assms(3) by (cases "find_or_start_browser env req") simp
  obtain t2 where sc: "scan env js (page s) = (t2, Inr u')"
    using assms(4) by (cases "scan env js (page s)") simp
  show ?thesis using assms(1,2) res sc by (simp add: run_scan_unfold)
qed

lemma fresh_scan: "snd (scan fresh_env js p) = Inr ()"
  by (simp add: phase_defs fresh_env_def)

lemma fresh_launched_session: "snd (find_or_start_browser fresh_env req) = Inr launched_session"
  by (simp add: fresh_session launched_session_def)

lemma keep_open_lines_quiet [simp]:
  "stdout_of (keep_open_lines ko) = []" "closes_of (keep_open_lines ko) = []"
  by (simp_all add: keep_open_lines_def)

lemma lifecycle_no_stdout:
  assumes "lifecycle env ko s = Some (t, r)"
  shows "stdout_of t = []"
proof (cases "is_existing_browser s")
  case True with assms show ?thesis by (auto simp: lifecycle_existing)
next
  case False
  show ?thesis
  proof (cases "lower ko = ''true''")
    case True
    from keep_alive_cases[OF False True, of env] assms show ?thesis by auto
  next
    case no: False
    with False assms show ?thesis
      by (cases "browser_close env (browser s)") (auto simp: lifecycle_close)
  qed
qed

lemma run_stdout_after_scan:
  assumes "open_read env (js_file_path req) = Returns js" and "sync_playwright env = Returns u"
    and "snd (find_or_start_browser env req) = Inr s"
    and "snd (scan env js (page s)) = Inr u'"
  shows "map_option (\<lambda>r. stdout_of (trace r)) (run_scan req env) =
         map_option (\<lambda>_. stdout_of (fst (scan env js (page s)))) (lifecycle env (keep_open req) s)"
proof (cases "lifecycle env (keep_open req) s")
  case None then show ?thesis using run_reaches_lifecycle[OF assms] by simp
next
  case (Some m)
  obtain t3 r3 where m: "m = (t3, r3)" by (cases m)
  with Some have "stdout_of t3 = []" using lifecycle_no_stdout by simp
  with Some m show ?thesis
    using run_reaches_lifecycle[OF assms] resolve_quiet(2)[of env req] by simp
qed

lemma close_lifecycle:
  "lifecycle (fresh_env\<lparr>evaluate := ev, json_dumps := jd\<rparr>) (keep_open close_request) launched_session
     = Some ([lifecycle_line False ''false'',
              Stderr ''[SCANNER] Keep Open disabled - closing browser...'',
              Close launched, Stderr ''[SCANNER] Browser closed''], Inr ())"
  by (simp add: lifecycle_close launched_session_def close_request_def lower_false fresh_env_def)


lemma evaluated_pages_append [simp]:
  "evaluated_pages (a @ b) = evaluated_pages a @ evaluated_pages b"
  by (induction a rule: evaluated_pages.induct) simp_all

lemma evaluated_top_level [simp]: "evaluated_pages (trace (top_level (t, r))) = evaluated_pages t"
  by (cases r) simp_all

lemma start_lines_no_evaluate [simp]: "evaluated_pages (start_lines req) = []"
  by (simp add: start_lines_def)

lemma resolve_no_evaluate: "evaluated_pages (fst (find_or_start_browser env req)) = []"
  by (auto simp: phase_defs Let_def split: outcome.splits if_splits exn.splits)

lemma scan_evaluates:
  "evaluated_pages (fst (scan env js p)) = [p] \<or> evaluated_pages (fst (scan env js p)) = [p, p]"
  by (auto simp: phase_defs split: outcome.splits printed.splits if_splits exn.splits)

lemma attached_run_evaluates:
  assumes "open_read env (js_file_path req) = Returns js" and "sync_playwright env = Returns u"
    and "find_or_start_browser env req = (t1, Inr s)" and "is_existing_browser s"
  shows "\<exists>r. run_scan req env = Some r
           \<and> (evaluated_pages (trace r) = [page s] \<or> evaluated_pages (trace r) = [page s, page s])"
proof -
  obtain t2 r2 where sc: "scan env js (page s) = (t2, r2)" by (cases "scan env js (page s)")
  have t1: "evaluated_pages t1 = []" using resolve_no_evaluate[of env req] assms(3) by simp
  have t2: "evaluated_pages t2 = [page s] \<or> evaluated_pages t2 = [page s, page s]"
    using scan_evaluates[of env js "page s"] sc by simp
  show ?thesis
    using assms sc t1 t2
    by (cases r2) (auto simp: run_scan_unfold lifecycle_existing lifecycle_line_def)
qed


subsection \<open>Prefixes of the main thread's events\<close>

lemma stop_at_fields [simp]:
  "open_read (stop_at n env) = open_read env"
  "sync_playwright (stop_at n env) = sync_playwright env"
  "connect_over_cdp (stop_at n env) = connect_over_cdp env"
  "launch (stop_at n env) = launch env"
  "new_page (stop_at n env) = new_page env"
  "goto (stop_at n env) = goto env"
  "wait_for_load_state (stop_at n env) = wait_for_load_state env"
  "evaluate (stop_at n env) = evaluate env"
  "len_result (stop_at n env) = len_result env"
  "json_dumps (stop_at n env) = json_dumps env"
  "print_stdout (stop_at n env) = print_stdout env"
  "stdout_flush (stop_at n env) = stdout_flush env"
  "time_sleep (stop_at n env) = time_sleep env"
  "browser_close (stop_at n env) = browser_close env"
  by (simp_all add: stop_at_def)

lemma stop_at_is_connected:
  "is_connected (stop_at n env) b i = (if i < n then is_connected env b i else Returns False)"
  by (simp add: stop_at_def)

lemma stop_at_phases [simp]:
  "find_or_start_browser (stop_at n env) req = find_or_start_browser env req"
  "scan (stop_at n env) js p = scan env js p"
  unfolding find_or_start_browser_def attach_def launch_new_def navigate_def wait_for_idle_def
    scan_def emit_json_def print_json_def stop_at_fields
  by (rule refl)+

lemma stop_at_lifecycle_other:
  "is_existing_browser s \<or> lower ko \<noteq> ''true'' \<Longrightarrow>
   lifecycle (stop_at n env) ko s = lifecycle env ko s"
  by (cases "is_existing_browser s") (simp_all add: lifecycle_existing lifecycle_close)

lemma stop_at_still_connected:
  "j \<le> n \<Longrightarrow> still_connected (stop_at n env) b j = still_connected env b j"
  by (induction j) (simp_all add: stop_at_is_connected)

lemma stop_at_poll_once:
  "j < n \<Longrightarrow> poll_once (stop_at n env) b j = poll_once env b j"
  "poll_once (stop_at n env) b n = ([IsConnected b], Inr False)"
  unfolding poll_once_def stop_at_fields
  by (simp_all add: stop_at_is_connected call_def ret_def)

lemma stop_at_lifecycle_cut:
  assumes "\<not> is_existing_browser s" and "lower ko = ''true''"
    and "still_connected env (browser s) n"
  shows "lifecycle (stop_at n env) ko s =
           Some (keep_open_lines ko @ polls (browser s) n
                 @ [IsConnected (browser s), Stderr ''[SCANNER] Browser was closed by user''],
                 Inr ())"
proof -
  have sc: "still_connected (stop_at n env) (browser s) n"
    using assms(3) by (simp add: stop_at_still_connected)
  from keep_alive_leaves[OF assms(1,2) sc stop_at_poll_once(2)]
  show ?thesis by (simp add: monitor_def log_def after_def)
qed

lemma stop_at_lifecycle_same:
  assumes "\<not> is_existing_browser s" and "lower ko = ''true''"
    and "still_connected env (browser s) j" and "j < n"
    and "snd (poll_once env (browser s) j) \<noteq> Inr True"
  shows "lifecycle (stop_at n env) ko s = lifecycle env ko s"
proof -
  obtain t r where po: "poll_once env (browser s) j = (t, r)"
    by (cases "poll_once env (browser s) j")
  with assms(5) have r: "r \<noteq> Inr True" by simp
  have sc: "still_connected (stop_at n env) (browser s) j"
    using assms(3,4) by (simp add: stop_at_still_connected)
  have po': "poll_once (stop_at n env) (browser s) j = (t, r)"
    using po assms(4) by (simp add: stop_at_poll_once)
  show ?thesis
    using keep_alive_leaves[OF assms(1,2) sc po' r] keep_alive_leaves[OF assms(1,2,3) po r]
    by simp
qed

lemma stop_at_lifecycle_returns: "lifecycle (stop_at n env) ko s \<noteq> None"
proof (cases "is_existing_browser s \<or> lower ko \<noteq> ''true''")
  case True
  then show ?thesis
    by (cases "is_existing_browser s") (simp_all add: lifecycle_existing lifecycle_close)
next
  case False
  then have k: "\<not> is_existing_browser s" "lower ko = ''true''" by simp_all
  have "\<not> (\<forall>j. still_connected (stop_at n env) (browser s) j)"
  proof
    assume "\<forall>j. still_connected (stop_at n env) (browser s) j"
    then have "still_connected (stop_at n env) (browser s) (Suc n)" by blast
    then show False by (simp add: stop_at_is_connected)
  qed
  with keep_alive_cases[OF k, of "stop_at n env"]
  obtain m where "lifecycle (stop_at n env) ko s = Some m" by blast
  then show ?thesis by simp
qed

lemma stop_at_returns: "run_scan req (stop_at n env) \<noteq> None"
  using stop_at_lifecycle_returns[of n env "keep_open req"]
  by (auto simp: run_scan_unfold[of req "stop_at n env"]
           split: outcome.splits prod.splits sum.splits)

lemma still_connected_earlier: "still_connected env b j \<Longrightarrow> n \<le> j \<Longrightarrow> still_connected env b n"
  by (induction j) (auto simp: le_Suc_eq)

lemma polls_extend: "n \<le> j \<Longrightarrow> \<exists>z. polls b j = polls b n @ z"
  by (induction j) (auto simp: le_Suc_eq)

lemma length_polls [simp]: "length (polls b n) = 2 * n"
  by (induction n) simp_all

lemma stop_at_run:
  "run_scan req (stop_at n env) =
     (case open_read env (js_file_path req) of
        Raises e \<Rightarrow> run_scan req env
      | Returns js \<Rightarrow>
         (case sync_playwright env of
            Raises e \<Rightarrow> run_scan req env
          | Returns _ \<Rightarrow>
             (case find_or_start_browser env req of
                (t1, Inl e) \<Rightarrow> run_scan req env
              | (t1, Inr s) \<Rightarrow>
                 (case scan env js (page s) of
                    (t2, Inl e) \<Rightarrow> run_scan req env
                  | (t2, Inr _) \<Rightarrow>
                      map_option
                        (\<lambda>(t3, r). top_level (start_lines req
                                               @ [OpenRead (js_file_path req), PlaywrightStart]
                                               @ t1 @ t2 @ t3 @ [PlaywrightStop], r))
                        (lifecycle (stop_at n env) (keep_open req) s)))))"
  by (simp add: run_scan_unfold[of req "stop_at n env"] run_scan_unfold[of req env]
      split: outcome.splits prod.splits sum.splits)

lemma main_prefix_of_run:
  assumes "run_scan req env = Some r"
  shows "main_prefix n req env = take n (trace r)"
proof -
  { assume "run_scan req (stop_at n env) = run_scan req env"
    with assms have ?thesis by (simp add: main_prefix_def) }
  note same = this
  show ?thesis
  proof (cases "open_read env (js_file_path req)")
    case (Raises e) then show ?thesis by (intro same) (simp add: stop_at_run)
  next
    case rd: (Returns js)
    show ?thesis
    proof (cases "sync_playwright env")
      case (Raises e) with rd show ?thesis by (intro same) (simp add: stop_at_run)
    next
      case pw: (Returns u)
      obtain t1 r1 where res: "find_or_start_browser env req = (t1, r1)"
        by (cases "find_or_start_browser env req")
      show ?thesis
      proof (cases r1)
        case (Inl e) with rd pw res show ?thesis by (intro same) (simp add: stop_at_run)
      next
        case (Inr s)
        obtain t2 r2 where sc: "scan env js (page s) = (t2, r2)"
          by (cases "scan env js (page s)")
        show ?thesis
        proof (cases r2)
          case (Inl e) with rd pw res Inr sc show ?thesis
            by (intro same) (simp add: stop_at_run)
        next
          case r2: (Inr u2)
          let ?pre = "start_lines req @ [OpenRead (js_file_path req), PlaywrightStart] @ t1 @ t2"
          let ?b = "browser s" and ?ko = "keep_open req"
          note unf = rd pw res Inr sc r2
          show ?thesis
          proof (cases "is_existing_browser s \<or> lower ?ko \<noteq> ''true''")
            case True
            from stop_at_lifecycle_other[OF this, where n = n and env = env] unf show ?thesis
              by (intro same) (simp add: stop_at_run run_scan_unfold[of req env])
          next
            case False
            then have k: "\<not> is_existing_browser s" "lower ?ko = ''true''" by simp_all
            from assms unf have "lifecycle env ?ko s \<noteq> None"
              by (auto simp: run_scan_unfold[of req env])
            with keep_alive_cases[OF k, of env] obtain j t where
              j: "still_connected env ?b j"
              and lc: "lifecycle env ?ko s = Some (keep_open_lines ?ko @ polls ?b j @ t, Inr ())"
              and lv: "snd (poll_once env ?b j) \<noteq> Inr True"
              by (auto simp: poll_once_again)
            show ?thesis
            proof (cases "j < n")
              case True
              from stop_at_lifecycle_same[OF k j True lv] unf show ?thesis
                by (intro same) (simp add: stop_at_run run_scan_unfold[of req env])
            next
              case False
              then have nj: "n \<le> j" by simp
              from polls_extend[OF nj] obtain z where z: "polls ?b j = polls ?b n @ z" by blast
              have cut: "lifecycle (stop_at n env) ?ko s =
                  Some (keep_open_lines ?ko @ polls ?b n
                        @ [IsConnected ?b, Stderr ''[SCANNER] Browser was closed by user''],
                        Inr ())"
                by (rule stop_at_lifecycle_cut[OF k still_connected_earlier[OF j nj]])
              have 1: "trace r = (?pre @ keep_open_lines ?ko @ polls ?b n)
                                 @ (z @ t @ [PlaywrightStop])"
                using assms unf lc z by (auto simp: run_scan_unfold[of req env])
              have 2: "run_scan req (stop_at n env) =
                  Some \<lparr>trace = (?pre @ keep_open_lines ?ko @ polls ?b n)
                          @ [IsConnected ?b, Stderr ''[SCANNER] Browser was closed by user'',
                             PlaywrightStop],
                        ending = Completed\<rparr>"
                using unf cut by (simp add: stop_at_run)
              have 3: "n \<le> length (?pre @ keep_open_lines ?ko @ polls ?b n)" by simp
              show ?thesis
                unfolding main_prefix_def 2 1 using 3 by (simp del: append_assoc)
            qed
          qed
        qed
      qed
    qed
  qed
qed

lemma stop_at_stop_at: "n \<le> m \<Longrightarrow> stop_at n (stop_at m env) = stop_at n env"
  by (simp add: stop_at_def fun_eq_iff)

lemma main_prefix_grows:
  assumes "n \<le> m"
  shows "take n (main_prefix m req env) = main_prefix n req env"
proof -
  from stop_at_returns[of req m env] obtain r where r: "run_scan req (stop_at m env) = Some r"
    by auto
  from main_prefix_of_run[OF r, of n] have "main_prefix n req (stop_at m env) = take n (trace r)" .
  moreover have "main_prefix n req (stop_at m env) = main_prefix n req env"
    using assms by (simp add: main_prefix_def stop_at_stop_at)
  ultimately show ?thesis using r assms by (simp add: main_prefix_def min_def)
qed

subsection \<open>Process endings, and what reaches standard output\<close>


lemma unreadable_run:
  assumes "open_read env (js_file_path req) = Raises (Exception m)"
  shows "run_scan req env =
           Some \<lparr>trace = start_lines req @ [OpenRead (js_file_path req),
                                              Stderr (''CRITICAL ERROR: '' @ m)],
                 ending = SysExit 1\<rparr>"
  using assms by (simp add: run_scan_unfold)



















subsection \<open>The claims\<close>

text \<open>
  C1. When the session is marked pre-existing (the attach over CDP gave the browser and
  its page), phase 3 issues no \<open>browser.close()\<close>, whatever the keep-open argument is,
  and no run that reaches such a session contains a close call at all; the run returns.
\<close>

theorem attached_browser_never_closed:
  assumes "snd (find_or_start_browser env req) = Inr s" and "is_existing_browser s"
  shows "(\<exists>t. lifecycle env ko s = Some (t, Inr ()) \<and> closes_of t = [])
         \<and> (\<exists>r. run_scan req env = Some r \<and> closes_of (trace r) = [])"
proof
  show "\<exists>t. lifecycle env ko s = Some (t, Inr ()) \<and> closes_of t = []"
    using assms(2) by (simp add: lifecycle_existing)
next
  obtain t1 where res: "find_or_start_browser env req = (t1, Inr s)"
    using assms(1) by (cases "find_or_start_browser env req") simp
  have t1: "closes_of t1 = []" using resolve_quiet(1)[of env req] res by simp
  show "\<exists>r. run_scan req env = Some r \<and> closes_of (trace r) = []"
  proof (cases "open_read env (js_file_path req)")
    case (Raises e) then show ?thesis by (simp add: run_scan_unfold)
  next
    case rd: (Returns js)
    show ?thesis
    proof (cases "sync_playwright env")
      case (Raises e) with rd show ?thesis by (simp add: run_scan_unfold)
    next
      case pw: (Returns u)
      obtain t2 r2 where sc: "scan env js (page s) = (t2, r2)" by (cases "scan env js (page s)")
      have t2: "closes_of t2 = []" using scan_no_close[of env js "page s"] sc by simp
      show ?thesis
        using rd pw res sc t1 t2 assms(2)
        by (cases r2) (simp_all add: run_scan_unfold lifecycle_existing)
    qed
  qed
qed

text \<open>
  An instance: the attach succeeds on a browser with one page, keep-open is \<open>false\<close>.
\<close>

theorem attached_browser_never_closed_witness:
  "is_existing_browser \<lparr>browser = running, page = open_page, is_existing_browser = True\<rparr>
   \<and> (\<exists>t. lifecycle attach_env ''false''
              \<lparr>browser = running, page = open_page, is_existing_browser = True\<rparr> = Some (t, Inr ())
            \<and> closes_of t = [])
   \<and> (\<exists>r. run_scan close_request attach_env = Some r \<and> closes_of (trace r) = [])"
  using attached_browser_never_closed[where req = close_request and ko = "''false''",
          OF attach_session]
  by simp

text \<open>
  C2. When the browser was launched by the script and the keep-open argument does not
  lower to \<open>'true'\<close>, the run returns, and if it ends normally then it has called
  \<open>browser.close()\<close> on the launched browser, exactly once, and that call returned
  before the flow left the Playwright context.
\<close>

theorem launched_browser_closed_before_normal_exit:
  assumes "snd (find_or_start_browser env req) = Inr s" and "\<not> is_existing_browser s"
    and "lower (keep_open req) \<noteq> ''true''"
  shows "\<exists>r. run_scan req env = Some r \<and>
           (ending r = Completed \<longrightarrow>
              closes_of (trace r) = [browser s] \<and>
              (\<exists>t. trace r = t @ [Close (browser s), Stderr ''[SCANNER] Browser closed'',
                                    PlaywrightStop]))"
proof -
  obtain t1 where res: "find_or_start_browser env req = (t1, Inr s)"
    using assms(1) by (cases "find_or_start_browser env req") simp
  have t1: "closes_of t1 = []" using resolve_quiet(1)[of env req] res by simp
  show ?thesis
  proof (cases "open_read env (js_file_path req)")
    case (Raises e) then show ?thesis by (cases e) (simp_all add: run_scan_unfold)
  next
    case rd: (Returns js)
    show ?thesis
    proof (cases "sync_playwright env")
      case (Raises e) with rd show ?thesis by (cases e) (simp_all add: run_scan_unfold)
    next
      case pw: (Returns u)
      obtain t2 r2 where sc: "scan env js (page s) = (t2, r2)" by (cases "scan env js (page s)")
      have t2: "closes_of t2 = []" using scan_no_close[of env js "page s"] sc by simp
      show ?thesis
      proof (cases r2)
        case (Inl e)
        with rd pw res sc scan_result[of env js "page s"] show ?thesis
          by (simp add: run_scan_unfold)
      next
        case (Inr u2)
        show ?thesis
        proof (cases "browser_close env (browser s)")
          case (Raises e)
          with Inr rd pw res sc assms(2,3) show ?thesis
            by (cases e) (simp_all add: run_scan_unfold lifecycle_close)
        next
          case (Returns u3)
          let ?t = "start_lines req @ [OpenRead (js_file_path req), PlaywrightStart] @ t1 @ t2
                    @ [lifecycle_line False (keep_open req),
                       Stderr ''[SCANNER] Keep Open disabled - closing browser...'']"
          have "run_scan req env =
                  Some \<lparr>trace = ?t @ [Close (browser s), Stderr ''[SCANNER] Browser closed'',
                                        PlaywrightStop],
                        ending = Completed\<rparr>"
            using Returns Inr rd pw res sc assms(2,3)
            by (simp add: run_scan_unfold lifecycle_close)
          moreover have "closes_of (?t @ [Close (browser s), Stderr ''[SCANNER] Browser closed'',
                                        PlaywrightStop]) = [browser s]"
            using t1 t2 by simp
          ultimately show ?thesis by (metis result.select_convs(1))
        qed
      qed
    qed
  qed
qed

text \<open>
  An instance: a launched browser, keep-open \<open>false\<close>; the run ends normally with one close.
\<close>

theorem launched_browser_closed_before_normal_exit_witness:
  "map_option ending (run_scan close_request fresh_env) = Some Completed
   \<and> map_option (\<lambda>r. closes_of (trace r)) (run_scan close_request fresh_env) = Some [launched]"
proof -
  have k: "lower (keep_open close_request) \<noteq> ''true''"
    by (simp add: close_request_def lower_false)
  from launched_browser_closed_before_normal_exit[OF fresh_session _ k]
  obtain r where r: "run_scan close_request fresh_env = Some r"
    and imp: "ending r = Completed \<longrightarrow> closes_of (trace r) = [launched]"
    by auto
  from r run_close have "ending r = Completed" by simp
  with r imp show ?thesis by simp
qed

text \<open>
  C3 (as amended). Once the flow has reached phase 3 with a browser it launched and a
  keep-open argument that lowers to \<open>'true'\<close>, it polls \<open>browser.is_connected()\<close> and
  sleeps one second after every poll that finds the browser connected. Either every poll
  finds it connected and every sleep returns, and then the run never returns; or, after
  \<open>n\<close> such passes, the loop is left in one of three ways, each followed by a normal end
  of the run: the poll reports the browser disconnected; a \<open>KeyboardInterrupt\<close> arrives
  in the poll or in the sleep; or the poll or the sleep raises an error, which is logged as
  a browser monitoring error.
\<close>

theorem keep_open_polling:
  assumes "open_read env (js_file_path req) = Returns js" and "sync_playwright env = Returns u"
    and "snd (find_or_start_browser env req) = Inr s"
    and "snd (scan env js (page s)) = Inr u'"
    and "\<not> is_existing_browser s" and "lower (keep_open req) = ''true''"
  shows "run_scan req env = None \<and> (\<forall>n. still_connected env (browser s) n)
    \<or> (\<exists>n t. still_connected env (browser s) n
          \<and> lifecycle env (keep_open req) s
              = Some (keep_open_lines (keep_open req) @ polls (browser s) n @ t, Inr ())
          \<and> map_option ending (run_scan req env) = Some Completed
          \<and> (is_connected env (browser s) n = Returns False
                \<and> t = [IsConnected (browser s), Stderr ''[SCANNER] Browser was closed by user'']
              \<or> is_connected env (browser s) n = Raises KeyboardInterrupt
                \<and> t = [IsConnected (browser s), Stderr ''[SCANNER] Scan interrupted by user'']
              \<or> (\<exists>m. is_connected env (browser s) n = Raises (Exception m)
                \<and> t = [IsConnected (browser s),
                        Stderr (''[SCANNER] Browser monitoring error: '' @ m)])
              \<or> is_connected env (browser s) n = Returns True
                \<and> time_sleep env n = Raises KeyboardInterrupt
                \<and> t = [IsConnected (browser s), Sleep 1,
                        Stderr ''[SCANNER] Scan interrupted by user'']
              \<or> (\<exists>m. is_connected env (browser s) n = Returns True
                \<and> time_sleep env n = Raises (Exception m)
                \<and> t = [IsConnected (browser s), Sleep 1,
                        Stderr (''[SCANNER] Browser monitoring error: '' @ m)])))"
proof -
  note run = run_reaches_lifecycle[OF assms(1-4)]
  from keep_alive_cases[OF assms(5,6), of env] show ?thesis
  proof (elim disjE conjE exE)
    assume "lifecycle env (keep_open req) s = None" "\<forall>n. still_connected env (browser s) n"
    then show ?thesis using run by simp
  next
    fix n t
    assume a: "still_connected env (browser s) n"
      "lifecycle env (keep_open req) s
         = Some (keep_open_lines (keep_open req) @ polls (browser s) n @ t, Inr ())"
    then have e: "map_option ending (run_scan req env) = Some Completed" using run by simp
    { assume "is_connected env (browser s) n = Returns False"
        "t = [IsConnected (browser s), Stderr ''[SCANNER] Browser was closed by user'']"
      with a e show ?thesis by blast }
    { assume "is_connected env (browser s) n = Raises KeyboardInterrupt"
        "t = [IsConnected (browser s), Stderr ''[SCANNER] Scan interrupted by user'']"
      with a e show ?thesis by blast }
    { fix m assume "is_connected env (browser s) n = Raises (Exception m)"
        "t = [IsConnected (browser s), Stderr (''[SCANNER] Browser monitoring error: '' @ m)]"
      with a e show ?thesis by blast }
    { assume "is_connected env (browser s) n = Returns True"
        "time_sleep env n = Raises KeyboardInterrupt"
        "t = [IsConnected (browser s), Sleep 1, Stderr ''[SCANNER] Scan interrupted by user'']"
      with a e show ?thesis by blast }
    { fix m assume "is_connected env (browser s) n = Returns True"
        "time_sleep env n = Raises (Exception m)"
        "t = [IsConnected (browser s), Sleep 1,
              Stderr (''[SCANNER] Browser monitoring error: '' @ m)]"
      with a e show ?thesis by blast }
  qed
qed

text \<open>
  An instance: the launched browser is seen connected twice and then reports disconnected.
\<close>

theorem keep_open_polling_witness:
  "\<exists>n. still_connected fresh_env launched n
     \<and> lifecycle fresh_env ''True'' launched_session
         = Some (keep_open_lines ''True'' @ polls launched n
                 @ [IsConnected launched, Stderr ''[SCANNER] Browser was closed by user''], Inr ())
     \<and> map_option ending (run_scan example_request fresh_env) = Some Completed
     \<and> is_connected fresh_env launched n = Returns False"
proof -
  have 1: "open_read fresh_env (js_file_path example_request) = Returns ''/* scanner */''"
    and 2: "sync_playwright fresh_env = Returns ()"
    by (simp_all add: fresh_env_def)
  have 4: "snd (scan fresh_env ''/* scanner */'' (page launched_session)) = Inr ()"
    by (rule fresh_scan)
  have 5: "\<not> is_existing_browser launched_session" by (simp add: launched_session_def)
  have 6: "lower (keep_open example_request) = ''true''"
    by (simp add: example_request_def lower_True)
  have b: "browser launched_session = launched" "keep_open example_request = ''True''"
    by (simp_all add: launched_session_def example_request_def)
  have never: "\<And>n e. is_connected fresh_env launched n \<noteq> Raises e"
    "\<And>n e. time_sleep fresh_env n \<noteq> Raises e"
    by (simp_all add: fresh_env_def)
  have "\<not> still_connected fresh_env launched 3"
    by (simp add: fresh_env_def numeral_3_eq_3)
  with keep_open_polling[OF 1 2 fresh_launched_session 4 5 6] never show ?thesis
    by (auto simp: b)
qed

text \<open>
  C3 as the specification words it fails: the loop is left "only when the browser
  reports disconnected or the loop is interrupted by a signal". Here the first poll raises
  an error; the browser has not reported disconnected, no signal has arrived, and yet the
  loop is left through the handler of lines 118-120 and the run ends normally.
\<close>

theorem polling_left_on_monitoring_error:
  "lifecycle monitor_error_env ''True'' launched_session
     = Some (keep_open_lines ''True''
             @ [IsConnected launched, Stderr ''[SCANNER] Browser monitoring error: Target closed''],
             Inr ())
   \<and> map_option ending (run_scan example_request monitor_error_env) = Some Completed
   \<and> is_connected monitor_error_env launched 0 = Raises (Exception ''Target closed'')
   \<and> \<not> spec_leaves_loop monitor_error_env launched 0"
proof -
  have lc: "lifecycle monitor_error_env ''True'' launched_session
     = Some (keep_open_lines ''True''
             @ [IsConnected launched, Stderr ''[SCANNER] Browser monitoring error: Target closed''],
             Inr ())"
    by (simp add: lifecycle_keep_lines launched_session_def lower_True poll_loop.simps
          poll_once_def call_def monitor_def log_def after_def monitor_error_env_def fresh_env_def)
  have res: "snd (find_or_start_browser monitor_error_env example_request) = Inr launched_session"
    by (simp add: phase_defs monitor_error_env_def fresh_env_def Let_def launched_session_def)
  have sc: "snd (scan monitor_error_env ''/* scanner */'' (page launched_session)) = Inr ()"
    by (simp add: phase_defs monitor_error_env_def fresh_env_def)
  have "map_option ending (run_scan example_request monitor_error_env) = Some Completed"
    using run_reaches_lifecycle[OF _ _ res sc, of "()"] lc
    by (simp add: monitor_error_env_def fresh_env_def example_request_def)
  with lc show ?thesis
    by (simp add: spec_leaves_loop_def monitor_error_env_def fresh_env_def)
qed

text \<open>
  C4. The watchdog has two exits. When the blocking read on standard input returns
  (end of stream), it ends the process with \<open>os._exit(0)\<close>: status 0, no cleanup.
  When the read raises an error, it ends the process with \<open>os._exit(1)\<close>: a non-zero
  status. No other process exit exists in it.
\<close>

theorem parent_watchdog_exits:
  "parent_watchdog (Returns data) = OsExit 0
   \<and> parent_watchdog (Raises (Exception m)) = OsExit 1
   \<and> (\<exists>code. parent_watchdog (Raises (Exception m)) = OsExit code \<and> code \<noteq> 0)
   \<and> (case parent_watchdog r of
          OsExit status \<Rightarrow> status = 0 \<or> status = 1
        | ThreadDied e \<Rightarrow> r = Raises e \<and> e = KeyboardInterrupt)"
  by (cases r; simp add: parent_watchdog_def; cases "case r of Raises e \<Rightarrow> e"; simp)

text \<open>
  C5 as amended. The script file cannot be read: \<open>open\<close> or \<open>read\<close> raises an error.
  The watchdog has been started before the file is opened (lines 30-31 precede line 34).
  When the watchdog's read of standard input has not ended by the time the main thread is
  through (or never ends, or the watchdog thread died), the process logs the error with the
  prefix \<open>CRITICAL ERROR: \<close> and ends with \<open>sys.exit(1)\<close>. When the read ends earlier, at
  the \<open>k\<close>-th of the two events that remain to the main thread, the watchdog ends the
  process with its own status after these \<open>k\<close> events: status 0 at end of input, and no
  \<open>CRITICAL ERROR\<close> line for \<open>k < 2\<close>. Nothing is printed on standard output either way.
\<close>

theorem unreadable_script_is_fatal:
  assumes "open_read env (js_file_path req) = Raises (Exception m)"
  shows "run_process req env None =
           Some \<lparr>seen = start_lines req @ [OpenRead (js_file_path req),
                                             Stderr (''CRITICAL ERROR: '' @ m)],
                 how_ended = MainEnded (SysExit 1)\<rparr>
       \<and> run_process req env (Some (k, stdin_read)) =
           (case parent_watchdog stdin_read of
              OsExit code \<Rightarrow>
                if k \<le> 2
                then Some \<lparr>seen = take (2 + k) (start_lines req
                                                  @ [OpenRead (js_file_path req),
                                                     Stderr (''CRITICAL ERROR: '' @ m)]),
                           how_ended = Killed code\<rparr>
                else Some \<lparr>seen = start_lines req @ [OpenRead (js_file_path req),
                                                        Stderr (''CRITICAL ERROR: '' @ m)],
                           how_ended = MainEnded (SysExit 1)\<rparr>
            | ThreadDied e \<Rightarrow>
                Some \<lparr>seen = start_lines req @ [OpenRead (js_file_path req),
                                                  Stderr (''CRITICAL ERROR: '' @ m)],
                      how_ended = MainEnded (SysExit 1)\<rparr>)
       \<and> stdout_of (start_lines req @ [OpenRead (js_file_path req),
                                       Stderr (''CRITICAL ERROR: '' @ m)]) = []"
proof -
  have cut: "run_scan req (stop_at n env) = run_scan req env" for n
    using assms by (simp add: stop_at_run)
  have len: "length (start_lines req) = 2" by (simp add: start_lines_def)
  show ?thesis
    using unreadable_run[OF assms] cut len
    by (auto simp: run_process_def main_alone_def main_prefix_def Let_def
             split: watchdog_end.splits)
qed

text \<open>
  An instance: the script file is missing and standard input stays open.
\<close>

theorem unreadable_script_is_fatal_witness:
  "run_process example_request missing_script_env None =
     Some \<lparr>seen = start_lines example_request
                    @ [OpenRead ''scanner.js'',
                       Stderr ''CRITICAL ERROR: No such file or directory''],
           how_ended = MainEnded (SysExit 1)\<rparr>"
  using unreadable_script_is_fatal[of missing_script_env example_request
          "''No such file or directory''"]
  by (simp add: missing_script_env_def fresh_env_def example_request_def)

text \<open>
  C5 as the specification words it fails: "the process logs a \<open>CRITICAL ERROR\<close>
  diagnostic and exits with status 1". Here the script file is missing and standard input
  is at its end when the watchdog starts: the process ends with status 0, and its only
  diagnostic line is the start line.
\<close>

theorem unreadable_script_killed_by_watchdog:
  "open_read missing_script_env (js_file_path example_request)
     = Raises (Exception ''No such file or directory'')
   \<and> run_process example_request missing_script_env (Some (0, Returns []))
     = Some \<lparr>seen = start_lines example_request, how_ended = Killed 0\<rparr>
   \<and> stderr_of (start_lines example_request)
     = [''[SCANNER] Starting scan - URL: http://localhost:3000/, Headless: false, Keep Open: True'']"
proof -
  have rd: "open_read missing_script_env (js_file_path example_request)
              = Raises (Exception ''No such file or directory'')"
    by (simp add: missing_script_env_def fresh_env_def)
  have "open_read (stop_at 2 missing_script_env) (js_file_path example_request)
              = Raises (Exception ''No such file or directory'')"
    using rd by simp
  from unreadable_run[OF this]
  have cut: "main_prefix 2 example_request missing_script_env = start_lines example_request"
    by (simp add: main_prefix_def start_lines_def)
  have len: "length (start_lines example_request) = 2" by (simp add: start_lines_def)
  have sl: "stderr_of (start_lines example_request)
     = [''[SCANNER] Starting scan - URL: http://localhost:3000/, Headless: false, Keep Open: True'']"
    by (simp add: start_lines_def example_request_def)
  have "run_process example_request missing_script_env (Some (0, Returns []))
     = Some \<lparr>seen = start_lines example_request, how_ended = Killed 0\<rparr>"
    using cut len by (simp add: run_process_def parent_watchdog_def)
  with rd sl show ?thesis by blast
qed

text \<open>
  C6. When the session is established and either evaluating the scanner script or
  evaluating the call of the scan entry point raises an error, the scan phase ends
  normally with the failure as its last diagnostic line and without anything printed on
  standard output; the run is then whatever phase 3 makes of the session (so the
  finalizer is reached), and no run prints anything on standard output.
\<close>

theorem scan_error_is_logged_and_flow_continues:
  assumes "open_read env (js_file_path req) = Returns js" and "sync_playwright env = Returns u"
    and "snd (find_or_start_browser env req) = Inr s"
    and "evaluate env 0 (page s) js = Raises (Exception m)
         \<or> (\<exists>v. evaluate env 0 (page s) js = Returns v
                \<and> evaluate env 1 (page s) scan_call = Raises (Exception m))"
  shows "\<exists>t. scan env js (page s)
               = (t @ [Stderr (''[SCANNER] ERROR - Scan failed: '' @ m)], Inr ())
           \<and> stdout_of t = []
           \<and> run_scan req env =
               map_option
                 (\<lambda>(t3, r). top_level (start_lines req
                                        @ [OpenRead (js_file_path req), PlaywrightStart]
                                        @ fst (find_or_start_browser env req)
                                        @ (t @ [Stderr (''[SCANNER] ERROR - Scan failed: '' @ m)])
                                        @ t3 @ [PlaywrightStop], r))
                 (lifecycle env (keep_open req) s)
           \<and> map_option (\<lambda>r. stdout_of (trace r)) (run_scan req env) =
               map_option (\<lambda>_. []) (lifecycle env (keep_open req) s)"
proof -
  let ?line = "Stderr (''[SCANNER] ERROR - Scan failed: '' @ m)"
  from assms(4) obtain t where
    sc: "scan env js (page s) = (t @ [?line], Inr ())" and quiet: "stdout_of t = []"
  proof (elim disjE exE conjE)
    assume "evaluate env 0 (page s) js = Raises (Exception m)"
    then have "scan env js (page s) =
      ([Stderr ''[SCANNER] Starting DOM scan...'', Evaluate (page s) js] @ [?line], Inr ())"
      by (simp add: phase_defs)
    then show ?thesis by (rule that) simp
  next
    fix v assume "evaluate env 0 (page s) js = Returns v"
      "evaluate env 1 (page s) scan_call = Raises (Exception m)"
    then have "scan env js (page s) =
      ([Stderr ''[SCANNER] Starting DOM scan...'', Evaluate (page s) js,
        Evaluate (page s) scan_call] @ [?line], Inr ())"
      by (simp add: phase_defs)
    then show ?thesis by (rule that) simp
  qed
  have s2: "snd (scan env js (page s)) = Inr ()" using sc by simp
  have "run_scan req env =
               map_option
                 (\<lambda>(t3, r). top_level (start_lines req
                                        @ [OpenRead (js_file_path req), PlaywrightStart]
                                        @ fst (find_or_start_browser env req)
                                        @ (t @ [?line])
                                        @ t3 @ [PlaywrightStop], r))
                 (lifecycle env (keep_open req) s)"
    using run_reaches_lifecycle[OF assms(1-3) s2] sc by simp
  moreover have "map_option (\<lambda>r. stdout_of (trace r)) (run_scan req env) =
               map_option (\<lambda>_. []) (lifecycle env (keep_open req) s)"
    using run_stdout_after_scan[OF assms(1-3) s2] sc quiet by simp
  ultimately show ?thesis using sc quiet by blast
qed

text \<open>
  An instance: the script loads, the entry point throws, keep-open is \<open>false\<close>.
\<close>

theorem scan_error_is_logged_and_flow_continues_witness:
  "snd (scan scan_error_env ''/* scanner */'' blank_page) = Inr ()
   \<and> map_option (\<lambda>r. stdout_of (trace r)) (run_scan close_request scan_error_env) = Some []"
proof -
  have 1: "open_read scan_error_env (js_file_path close_request) = Returns ''/* scanner */''"
    and 2: "sync_playwright scan_error_env = Returns ()"
    by (simp_all add: scan_error_env_def fresh_env_def)
  have 3: "snd (find_or_start_browser scan_error_env close_request) = Inr launched_session"
    by (simp add: phase_defs scan_error_env_def fresh_env_def Let_def launched_session_def)
  have 4: "evaluate scan_error_env 0 (page launched_session) ''/* scanner */''
             = Raises (Exception ''scan is not a function'')
         \<or> (\<exists>v. evaluate scan_error_env 0 (page launched_session) ''/* scanner */'' = Returns v
                \<and> evaluate scan_error_env 1 (page launched_session) scan_call
                    = Raises (Exception ''scan is not a function''))"
    by (simp add: scan_error_env_def)
  have lc: "lifecycle scan_error_env (keep_open close_request) launched_session \<noteq> None"
    using close_lifecycle[where ev = "evaluate scan_error_env" and jd = "json_dumps fresh_env"]
    by (simp add: scan_error_env_def fresh_env_def)
  have p: "page launched_session = blank_page" by (simp add: launched_session_def)
  from scan_error_is_logged_and_flow_continues[OF 1 2 3 4] lc show ?thesis
    by (auto simp: p)
qed




text \<open>
  C8. When the attach over CDP succeeds: if the browser has a first context and that
  context has a first page, the session takes that page and opens none; otherwise (no
  context, or a first context without pages) it opens a new page in the attached browser
  and, when that succeeds, takes it. In both cases the session is marked pre-existing, the
  run returns, and every \<open>page.evaluate\<close> of the run is made on that page.
\<close>

theorem attach_reuses_first_page_or_opens_one:
  assumes "open_read env (js_file_path req) = Returns js" and "sync_playwright env = Returns u"
    and "connect_over_cdp env cdp_url = Returns b"
  shows "(contexts b \<noteq> [] \<and> pages (hd (contexts b)) \<noteq> [] \<longrightarrow>
            attach env =
              ([ConnectOverCdp cdp_url, Stderr ''[SCANNER] SUCCESS - Connected to existing browser'',
                Stderr (''[SCANNER] Using existing page: '' @ url (hd (pages (hd (contexts b)))))],
               Inr \<lparr>browser = b, page = hd (pages (hd (contexts b))), is_existing_browser = True\<rparr>)
          \<and> (\<exists>r. run_scan req env = Some r
                 \<and> set (evaluated_pages (trace r)) = {hd (pages (hd (contexts b)))}))
       \<and> ((contexts b = [] \<or> pages (hd (contexts b)) = []) \<and> new_page env b = Returns p \<longrightarrow>
            attach env =
              ([ConnectOverCdp cdp_url, Stderr ''[SCANNER] SUCCESS - Connected to existing browser'',
                NewPage b, Stderr ''[SCANNER] Created new page in existing browser''],
               Inr \<lparr>browser = b, page = p, is_existing_browser = True\<rparr>)
          \<and> (\<exists>r. run_scan req env = Some r \<and> set (evaluated_pages (trace r)) = {p}))"
proof (intro conjI impI)
  assume a: "contexts b \<noteq> [] \<and> pages (hd (contexts b)) \<noteq> []"
  let ?p = "hd (pages (hd (contexts b)))"
  show at: "attach env =
              ([ConnectOverCdp cdp_url, Stderr ''[SCANNER] SUCCESS - Connected to existing browser'',
                Stderr (''[SCANNER] Using existing page: '' @ url ?p)],
               Inr \<lparr>browser = b, page = ?p, is_existing_browser = True\<rparr>)"
  proof -
    from a have "contexts b ! 0 = hd (contexts b)" by (cases "contexts b") auto
    moreover from a have "pages (hd (contexts b)) ! 0 = ?p"
      by (cases "pages (hd (contexts b))") auto
    ultimately show ?thesis
      using a assms(3) by (simp add: attach_def call_def log_def ret_def Let_def)
  qed
  then obtain t1 where "find_or_start_browser env req
      = (t1, Inr \<lparr>browser = b, page = ?p, is_existing_browser = True\<rparr>)"
    by (simp add: find_or_start_browser_def log_def)
  from attached_run_evaluates[OF assms(1,2) this]
  show "\<exists>r. run_scan req env = Some r \<and> set (evaluated_pages (trace r)) = {?p}"
    by auto
next
  assume a: "(contexts b = [] \<or> pages (hd (contexts b)) = []) \<and> new_page env b = Returns p"
  show at: "attach env =
              ([ConnectOverCdp cdp_url, Stderr ''[SCANNER] SUCCESS - Connected to existing browser'',
                NewPage b, Stderr ''[SCANNER] Created new page in existing browser''],
               Inr \<lparr>browser = b, page = p, is_existing_browser = True\<rparr>)"
    using a assms(3) by (auto simp: attach_def call_def log_def ret_def hd_conv_nth)
  then obtain t1 where "find_or_start_browser env req
      = (t1, Inr \<lparr>browser = b, page = p, is_existing_browser = True\<rparr>)"
    by (simp add: find_or_start_browser_def log_def)
  from attached_run_evaluates[OF assms(1,2) this]
  show "\<exists>r. run_scan req env = Some r \<and> set (evaluated_pages (trace r)) = {p}"
    by auto
qed

text \<open>
  Two instances: a running browser with one page, and one without any context.
\<close>

theorem attach_reuses_first_page_or_opens_one_witness:
  "snd (attach attach_env) = Inr \<lparr>browser = running, page = open_page, is_existing_browser = True\<rparr>
   \<and> (\<exists>r. run_scan example_request attach_env = Some r
          \<and> set (evaluated_pages (trace r)) = {open_page})
   \<and> snd (attach bare_attach_env)
        = Inr \<lparr>browser = empty_browser, page = blank_page, is_existing_browser = True\<rparr>
   \<and> (\<exists>r. run_scan example_request bare_attach_env = Some r
          \<and> set (evaluated_pages (trace r)) = {blank_page})"
proof -
  have 1: "open_read attach_env (js_file_path example_request) = Returns ''/* scanner */''"
    "sync_playwright attach_env = Returns ()" "connect_over_cdp attach_env cdp_url = Returns running"
    by (simp_all add: attach_env_def fresh_env_def)
  have 2: "open_read bare_attach_env (js_file_path example_request) = Returns ''/* scanner */''"
    "sync_playwright bare_attach_env = Returns ()"
    "connect_over_cdp bare_attach_env cdp_url = Returns empty_browser"
    by (simp_all add: bare_attach_env_def fresh_env_def)
  have a: "contexts running \<noteq> [] \<and> pages (hd (contexts running)) \<noteq> []"
    "hd (pages (hd (contexts running))) = open_page"
    by (simp_all add: running_def)
  have b: "(contexts empty_browser = [] \<or> pages (hd (contexts empty_browser)) = [])
           \<and> new_page bare_attach_env empty_browser = Returns blank_page"
    by (simp add: empty_browser_def bare_attach_env_def fresh_env_def)
  from attach_reuses_first_page_or_opens_one[OF 1]
       attach_reuses_first_page_or_opens_one[OF 2, where p = blank_page] a b
  show ?thesis by simp
qed






end
